theory Spec2Isabelle
  imports Main "HOL-Library.Word"
begin

unbundle bit_operations_syntax

section \<open>The alarm clock on wheels: data model\<close>

text \<open>
  The sketch \<^verbatim>\<open>alarm_clock_on_wheels.ino\<close> runs on an AVR microcontroller (it programs
  the AVR registers \<^verbatim>\<open>TCCR1A\<close>, \<^verbatim>\<open>EICRA\<close>, \<^verbatim>\<open>PCMSK2\<close> and reads \<^verbatim>\<open>PIND\<close>). On that
  target \<^verbatim>\<open>int\<close> and \<^verbatim>\<open>unsigned int\<close> have 16 bits and \<^verbatim>\<open>unsigned long\<close>, the type
  of \<^verbatim>\<open>millis()\<close>, has 32 bits. Unsigned arithmetic wraps around, as \<open>+\<close>, \<open>-\<close> and
  \<open>*\<close> do on words.
\<close>

type_synonym uint = "16 word"
type_synonym ulong = "32 word"
type_synonym cint = "16 word"

subsection \<open>Constants of the sketch\<close>

definition INITIAL_STATE :: cint where "INITIAL_STATE = 0"
definition SETTING_ALARM :: cint where "SETTING_ALARM = 1"
definition ALARM_SET :: cint where "ALARM_SET = 2"
definition ALARM_RINGING :: cint where "ALARM_RINGING = 3"

definition MINIMUM_TIME_BETWEEN_BUTTON_PRESSES_MILLIS :: ulong where
  "MINIMUM_TIME_BETWEEN_BUTTON_PRESSES_MILLIS = 200"
definition NUMBER_OF_SECONDS_IN_A_MINUTE :: uint where
  "NUMBER_OF_SECONDS_IN_A_MINUTE = 60"
definition DEFAULT_SNOOZE_TIME_MINUTES :: uint where
  "DEFAULT_SNOOZE_TIME_MINUTES = 3"
definition BUZZING_TIME_MILLIS :: ulong where
  "BUZZING_TIME_MILLIS = 3500"
definition BUZZER_FREQUENCY_HZ :: nat where
  "BUZZER_FREQUENCY_HZ = 1000"

text \<open>
  \<^verbatim>\<open>PD4\<close> comes from the AVR device header, not from the sketch: it is the bit number
  of pin 4 of port D.
\<close>

definition PD4 :: nat where "PD4 = 4"

subsection \<open>The global variables\<close>

record globals =
  last_yellow_button_push :: ulong
  last_red_button_push :: ulong
  last_blue_button_push :: ulong
  seconds_passed :: uint
  seconds_for_alarm_start :: uint
  number_of_minutes_selected :: uint
  current_direction_start :: ulong
  direction :: bool
  state :: cint
  changed_state :: bool
  force_lcd_clear :: bool

text \<open>
  The values at boot. \<^verbatim>\<open>current_direction_start\<close> has no initialiser; as a global it
  starts at zero.
\<close>

definition boot :: globals where
  "boot = \<lparr> last_yellow_button_push = 0, last_red_button_push = 0,
            last_blue_button_push = 0, seconds_passed = 0,
            seconds_for_alarm_start = 0, number_of_minutes_selected = 0,
            current_direction_start = 0, direction = False,
            state = INITIAL_STATE, changed_state = False,
            force_lcd_clear = False \<rparr>"

section \<open>The interrupt handlers\<close>

text \<open>
  Each handler runs to completion, so it is a function from the globals before to the
  globals after. The value that \<^verbatim>\<open>millis()\<close> returns, and the value read from
  \<^verbatim>\<open>PIND\<close>, are inputs.
\<close>

text \<open>\<^verbatim>\<open>ISR(TIMER1_COMPA_vect)\<close>: the tick, every two seconds.\<close>

definition TIMER1_COMPA_vect :: "globals \<Rightarrow> globals" where
  "TIMER1_COMPA_vect s =
     (let s1 = s\<lparr>seconds_passed := seconds_passed s + 2\<rparr> in
      if seconds_for_alarm_start s1 \<le> seconds_passed s1 \<and> state s1 = ALARM_SET
      then s1\<lparr>state := state s1 + 1, changed_state := True\<rparr>
      else s1)"

text \<open>\<^verbatim>\<open>ISR(INT0_vect)\<close>: the blue button, confirm.\<close>

definition INT0_vect :: "ulong \<Rightarrow> globals \<Rightarrow> globals" where
  "INT0_vect current_time s =
     (if MINIMUM_TIME_BETWEEN_BUTTON_PRESSES_MILLIS
           \<le> current_time - last_blue_button_push s
      then
        let s1 = s\<lparr>last_blue_button_push := current_time\<rparr> in
        if state s1 = SETTING_ALARM
        then s1\<lparr>state := state s1 + 1, changed_state := True,
                seconds_for_alarm_start :=
                  seconds_passed s1
                    + NUMBER_OF_SECONDS_IN_A_MINUTE * number_of_minutes_selected s1\<rparr>
        else s1
      else s)"

text \<open>\<^verbatim>\<open>ISR(INT1_vect)\<close>: the red button, decrease or stop the alarm.\<close>

definition INT1_vect :: "ulong \<Rightarrow> globals \<Rightarrow> globals" where
  "INT1_vect current_time s =
     (if MINIMUM_TIME_BETWEEN_BUTTON_PRESSES_MILLIS
           \<le> current_time - last_red_button_push s
      then
        let s1 = s\<lparr>last_red_button_push := current_time\<rparr>;
            s2 = (if state s1 = SETTING_ALARM \<and> 0 < number_of_minutes_selected s1
                  then
                    let s1' = s1\<lparr>number_of_minutes_selected :=
                                   number_of_minutes_selected s1 - 1\<rparr> in
                    if number_of_minutes_selected s1' = 9
                       \<or> number_of_minutes_selected s1' = 99
                    then s1'\<lparr>force_lcd_clear := True\<rparr>
                    else s1'
                  else s1)
        in
        if state s2 = ALARM_RINGING
        then s2\<lparr>state := INITIAL_STATE, changed_state := True\<rparr>
        else s2
      else s)"

text \<open>
  \<^verbatim>\<open>ISR(PCINT2_vect)\<close>: the yellow button, increase or snooze. The pin-change interrupt
  fires on both edges of the line; the handler goes on only when bit \<^verbatim>\<open>PD4\<close> of
  \<^verbatim>\<open>PIND\<close> reads 0. The three tests on \<^verbatim>\<open>state\<close> follow each other without
  \<^verbatim>\<open>else\<close>, so each reads what the one before left.
\<close>

definition PCINT2_vect :: "8 word \<Rightarrow> ulong \<Rightarrow> globals \<Rightarrow> globals" where
  "PCINT2_vect PIND current_time s =
     (if PIND AND push_bit PD4 1 = 0
      then
        if MINIMUM_TIME_BETWEEN_BUTTON_PRESSES_MILLIS
             \<le> current_time - last_yellow_button_push s
        then
          let s1 = s\<lparr>last_yellow_button_push := current_time\<rparr>;
              s2 = (if state s1 = SETTING_ALARM
                    then s1\<lparr>number_of_minutes_selected :=
                               number_of_minutes_selected s1 + 1\<rparr>
                    else s1);
              s3 = (if state s2 = INITIAL_STATE
                    then s2\<lparr>state := state s2 + 1, changed_state := True,
                            number_of_minutes_selected := 1\<rparr>
                    else s2)
          in
          if state s3 = ALARM_RINGING
          then s3\<lparr>state := ALARM_SET, changed_state := True,
                  seconds_for_alarm_start :=
                    seconds_passed s3
                      + DEFAULT_SNOOZE_TIME_MINUTES * NUMBER_OF_SECONDS_IN_A_MINUTE\<rparr>
          else s3
        else s
      else s)"

section \<open>The render and actuate loop\<close>

text \<open>
  What \<^verbatim>\<open>loop()\<close> asks of the display, the buzzer and the motor driver is recorded
  as a list of actions, in the order of the calls. \<^verbatim>\<open>print_current_alarm_info\<close> prints
  the number of minutes, \<^verbatim>\<open>print_during_alarm_ringing\<close> the snooze time.
\<close>

datatype action =
    lcd_clear
  | stop_car
  | print_during_alarm_ringing uint
  | tone nat
  | noTone
  | move_forward
  | move_backward
  | print_date_and_time
  | print_current_alarm_info uint

text \<open>
  One pass of \<^verbatim>\<open>loop()\<close>, taken as atomic. A pass calls \<^verbatim>\<open>millis()\<close> at most twice:
  \<open>now1\<close> is what the first call returns and \<open>now2\<close> what the second returns. (The
  pass that enters the ringing state calls it once; a ringing pass calls it once for
  the test and, when the window is over, once more for the new window start.)
\<close>

definition loop :: "ulong \<Rightarrow> ulong \<Rightarrow> globals \<Rightarrow> globals \<times> action list" where
  "loop now1 now2 s =
     (if changed_state s \<and> state s = ALARM_RINGING
      then (s\<lparr>changed_state := False, direction := False,
               current_direction_start := now1\<rparr>, [lcd_clear])
      else
        let (s1, out1) =
              (if changed_state s
               then (s\<lparr>changed_state := False\<rparr>, [lcd_clear, stop_car])
               else (s, []))
        in
        if state s1 = ALARM_RINGING
        then
          if BUZZING_TIME_MILLIS \<le> now1 - current_direction_start s1
          then (s1\<lparr>current_direction_start := now2, direction := \<not> direction s1\<rparr>,
                out1 @ [print_during_alarm_ringing DEFAULT_SNOOZE_TIME_MINUTES])
          else if direction s1
          then (s1, out1 @ [print_during_alarm_ringing DEFAULT_SNOOZE_TIME_MINUTES,
                            tone BUZZER_FREQUENCY_HZ, move_forward])
          else (s1, out1 @ [print_during_alarm_ringing DEFAULT_SNOOZE_TIME_MINUTES,
                            noTone, move_backward])
        else if state s1 = INITIAL_STATE \<or> state s1 = ALARM_SET
        then (s1, out1 @ [noTone, print_date_and_time])
        else if state s1 = SETTING_ALARM
        then
          if force_lcd_clear s1
          then (s1\<lparr>force_lcd_clear := False\<rparr>,
                out1 @ [lcd_clear,
                        print_current_alarm_info (number_of_minutes_selected s1)])
          else (s1, out1 @ [print_current_alarm_info (number_of_minutes_selected s1)])
        else (s1, out1))"

section \<open>Events and runs\<close>

text \<open>
  Handlers do not interrupt each other, so a run of the device is a sequence of events,
  each handled to completion: a tick, a button interrupt with the time it reads (and,
  for the yellow button, the port value it reads), or a pass of the loop.
\<close>

datatype event =
    Tick
  | Blue ulong
  | Red ulong
  | Yellow "8 word" ulong
  | Pass ulong ulong

fun step :: "event \<Rightarrow> globals \<Rightarrow> globals" where
  "step Tick s = TIMER1_COMPA_vect s"
| "step (Blue t) s = INT0_vect t s"
| "step (Red t) s = INT1_vect t s"
| "step (Yellow p t) s = PCINT2_vect p t s"
| "step (Pass t1 t2) s = fst (loop t1 t2 s)"

fun run :: "event list \<Rightarrow> globals \<Rightarrow> globals" where
  "run [] s = s"
| "run (e # es) s = run es (step e s)"

text \<open>\<open>ticks n\<close>: \<open>n\<close> timer interrupts in a row, with nothing in between.\<close>

fun ticks :: "nat \<Rightarrow> globals \<Rightarrow> globals" where
  "ticks 0 s = s"
| "ticks (Suc n) s = TIMER1_COMPA_vect (ticks n s)"

text \<open>
  \<open>passes ps\<close>: loop passes in a row, each with its two clock readings; \<open>flips ps s\<close>
  counts the passes among them that change \<^verbatim>\<open>direction\<close>.
\<close>

fun passes :: "(ulong \<times> ulong) list \<Rightarrow> globals \<Rightarrow> globals" where
  "passes [] s = s"
| "passes (p # ps) s = passes ps (fst (loop (fst p) (snd p) s))"

fun flips :: "(ulong \<times> ulong) list \<Rightarrow> globals \<Rightarrow> nat" where
  "flips [] s = 0"
| "flips (p # ps) s =
     (if direction (fst (loop (fst p) (snd p) s)) = direction s then 0 else 1)
       + flips ps (fst (loop (fst p) (snd p) s))"

subsection \<open>The three inputs\<close>

text \<open>
  The buttons by colour, the debounce timestamp each one owns, and the interrupt a raw
  edge on each one raises.
\<close>

datatype button = blue | red | yellow

fun last_push :: "button \<Rightarrow> globals \<Rightarrow> ulong" where
  "last_push blue s = last_blue_button_push s"
| "last_push red s = last_red_button_push s"
| "last_push yellow s = last_yellow_button_push s"

fun edge :: "button \<Rightarrow> 8 word \<Rightarrow> ulong \<Rightarrow> event" where
  "edge blue p t = Blue t"
| "edge red p t = Red t"
| "edge yellow p t = Yellow p t"

fun button_of :: "event \<Rightarrow> button option" where
  "button_of (Blue t) = Some blue"
| "button_of (Red t) = Some red"
| "button_of (Yellow p t) = Some yellow"
| "button_of Tick = None"
| "button_of (Pass t1 t2) = None"

text \<open>
  The level test of the yellow handler: the other two handlers have none.
\<close>

fun line_low :: "button \<Rightarrow> 8 word \<Rightarrow> bool" where
  "line_low yellow p = (p AND push_bit PD4 1 = 0)"
| "line_low blue p = True"
| "line_low red p = True"

definition accepted :: "button \<Rightarrow> 8 word \<Rightarrow> ulong \<Rightarrow> globals \<Rightarrow> bool" where
  "accepted b p t s =
     (line_low b p \<and> MINIMUM_TIME_BETWEEN_BUTTON_PRESSES_MILLIS \<le> t - last_push b s)"

subsection \<open>The transition table of the specification\<close>

text \<open>
  The transition table of the specification (its section 4.2), as a predicate on the
  globals an event finds and the event: \<open>spec_table_row s e\<close> holds when the state
  of \<open>s\<close> with the trigger \<open>e\<close> is a row of the table that changes something. It
  follows the words of the table, not the handlers, and is there to be compared with
  them. The rows: Idle with increase; SettingAlarm with increase, with decrease when
  the minutes are above zero, and with confirm; Armed with a tick that brings the
  elapsed seconds to the target or past it; Ringing with decrease and with increase.
  A loop pass is no trigger of the table.
\<close>

fun spec_table_row :: "globals \<Rightarrow> event \<Rightarrow> bool" where
  "spec_table_row s Tick =
     (state s = ALARM_SET \<and> seconds_for_alarm_start s \<le> seconds_passed s + 2)"
| "spec_table_row s (Blue t) = (state s = SETTING_ALARM)"
| "spec_table_row s (Red t) =
     (state s = SETTING_ALARM \<and> 0 < number_of_minutes_selected s
      \<or> state s = ALARM_RINGING)"
| "spec_table_row s (Yellow p t) =
     (state s = INITIAL_STATE \<or> state s = SETTING_ALARM \<or> state s = ALARM_RINGING)"
| "spec_table_row s (Pass t1 t2) = False"

section \<open>Basic facts\<close>

lemmas state_defs = INITIAL_STATE_def SETTING_ALARM_def ALARM_SET_def ALARM_RINGING_def

lemmas const_defs = MINIMUM_TIME_BETWEEN_BUTTON_PRESSES_MILLIS_def
  NUMBER_OF_SECONDS_IN_A_MINUTE_def DEFAULT_SNOOZE_TIME_MINUTES_def
  BUZZING_TIME_MILLIS_def BUZZER_FREQUENCY_HZ_def PD4_def

lemma snooze_offset: "DEFAULT_SNOOZE_TIME_MINUTES * NUMBER_OF_SECONDS_IN_A_MINUTE = 180"
  by (simp add: const_defs)

section \<open>Invalid transitions are no-ops\<close>

text \<open>
  C2. For every state and every trigger such that the pair is not a row of the
  transition table, handling the trigger leaves the alarm state, the number of minutes
  selected and the alarm target as they were. The theorem holds for every event (a
  button edge, accepted or not, a tick, a loop pass) and for every value of the
  globals.
\<close>

theorem no_row_no_effect:
  assumes "\<not> spec_table_row s e"
  shows "state (step e s) = state s
       \<and> number_of_minutes_selected (step e s) = number_of_minutes_selected s
       \<and> seconds_for_alarm_start (step e s) = seconds_for_alarm_start s"
proof (cases e)
  case Tick
  with assms show ?thesis by (auto simp: TIMER1_COMPA_vect_def Let_def)
next
  case (Blue t)
  with assms show ?thesis by (simp add: INT0_vect_def Let_def)
next
  case (Red t)
  with assms show ?thesis by (auto simp: INT1_vect_def Let_def state_defs)
next
  case (Yellow p t)
  with assms show ?thesis by (simp add: PCINT2_vect_def Let_def state_defs)
next
  case (Pass t1 t2)
  then show ?thesis by (simp add: loop_def Let_def split: prod.splits if_splits)
qed

text \<open>
  An instance: an accepted confirm (the blue timestamp becomes 1000) in the armed
  state, with 7 minutes selected and the target at 500.
\<close>

theorem no_row_no_effect_witness:
  "\<not> spec_table_row (boot\<lparr>state := ALARM_SET, number_of_minutes_selected := 7,
                      seconds_for_alarm_start := 500\<rparr>) (Blue 1000)
 \<and> last_blue_button_push
     (step (Blue 1000) (boot\<lparr>state := ALARM_SET, number_of_minutes_selected := 7,
                              seconds_for_alarm_start := 500\<rparr>)) = 1000
 \<and> state (step (Blue 1000) (boot\<lparr>state := ALARM_SET, number_of_minutes_selected := 7,
                                  seconds_for_alarm_start := 500\<rparr>)) = ALARM_SET
 \<and> number_of_minutes_selected
     (step (Blue 1000) (boot\<lparr>state := ALARM_SET, number_of_minutes_selected := 7,
                              seconds_for_alarm_start := 500\<rparr>)) = 7
 \<and> seconds_for_alarm_start
     (step (Blue 1000) (boot\<lparr>state := ALARM_SET, number_of_minutes_selected := 7,
                              seconds_for_alarm_start := 500\<rparr>)) = 500"
proof -
  have h: "\<not> spec_table_row (boot\<lparr>state := ALARM_SET, number_of_minutes_selected := 7,
                      seconds_for_alarm_start := 500\<rparr>) (Blue 1000)"
    by (simp add: state_defs)
  have "last_blue_button_push
     (step (Blue 1000) (boot\<lparr>state := ALARM_SET, number_of_minutes_selected := 7,
                              seconds_for_alarm_start := 500\<rparr>)) = 1000"
    by (simp add: boot_def INT0_vect_def Let_def state_defs const_defs)
  with h no_row_no_effect [OF h] show ?thesis by simp
qed

section \<open>Snooze\<close>

text \<open>
  C3, as amended. In every ringing state an accepted increase event (the yellow line
  reads low and the debounce window is over) re-arms the alarm: the state becomes
  armed, the state-changed flag is set, and the target becomes the elapsed seconds plus
  180 in 16-bit unsigned arithmetic, that is (elapsed seconds + 180) modulo 65536; it
  is the elapsed seconds plus 180 whenever the elapsed seconds are at most 65355. The
  new target does not depend on the minutes selected or on the target before.
\<close>

theorem snooze_rearms:
  assumes "state s = ALARM_RINGING"
      and "PIND AND push_bit PD4 1 = 0"
      and "MINIMUM_TIME_BETWEEN_BUTTON_PRESSES_MILLIS \<le> t - last_yellow_button_push s"
  shows "state (PCINT2_vect PIND t s) = ALARM_SET
       \<and> changed_state (PCINT2_vect PIND t s)
       \<and> seconds_for_alarm_start (PCINT2_vect PIND t s) = seconds_passed s + 180
       \<and> unat (seconds_for_alarm_start (PCINT2_vect PIND t s))
           = (unat (seconds_passed s) + 180) mod 65536
       \<and> (unat (seconds_passed s) \<le> 65355 \<longrightarrow>
            unat (seconds_for_alarm_start (PCINT2_vect PIND t s))
              = unat (seconds_passed s) + 180)
       \<and> seconds_for_alarm_start
            (PCINT2_vect PIND t (s\<lparr>number_of_minutes_selected := m,
                                    seconds_for_alarm_start := x\<rparr>))
           = seconds_for_alarm_start (PCINT2_vect PIND t s)"
  using assms
  by (simp add: PCINT2_vect_def Let_def state_defs snooze_offset unat_word_ariths)

text \<open>
  An instance: ringing at 100 elapsed seconds, 7 minutes selected, old target 90; the
  snooze at 1000 ms sets the target to 280.
\<close>

theorem snooze_rearms_witness:
  "state (boot\<lparr>seconds_passed := 100, state := ALARM_RINGING\<rparr>) = ALARM_RINGING
 \<and> (0 :: 8 word) AND push_bit PD4 1 = 0
 \<and> MINIMUM_TIME_BETWEEN_BUTTON_PRESSES_MILLIS
     \<le> 1000 - last_yellow_button_push (boot\<lparr>seconds_passed := 100, state := ALARM_RINGING\<rparr>)
 \<and> state (PCINT2_vect 0 1000 (boot\<lparr>seconds_passed := 100, state := ALARM_RINGING\<rparr>))
     = ALARM_SET
 \<and> changed_state (PCINT2_vect 0 1000 (boot\<lparr>seconds_passed := 100, state := ALARM_RINGING\<rparr>))
 \<and> unat (seconds_for_alarm_start
          (PCINT2_vect 0 1000 (boot\<lparr>seconds_passed := 100, state := ALARM_RINGING\<rparr>)))
     = 280
 \<and> seconds_for_alarm_start
     (PCINT2_vect 0 1000
        (boot\<lparr>seconds_passed := 100, state := ALARM_RINGING,
              number_of_minutes_selected := 7, seconds_for_alarm_start := 90\<rparr>)) = 280"
proof -
  have h1: "state (boot\<lparr>seconds_passed := 100, state := ALARM_RINGING\<rparr>) = ALARM_RINGING"
    by simp
  have h2: "(0 :: 8 word) AND push_bit PD4 1 = 0"
    by simp
  have h3: "MINIMUM_TIME_BETWEEN_BUTTON_PRESSES_MILLIS
     \<le> 1000 - last_yellow_button_push (boot\<lparr>seconds_passed := 100, state := ALARM_RINGING\<rparr>)"
    by (simp add: boot_def const_defs)
  show ?thesis
    using h1 h2 h3 snooze_rearms [OF h1 h2 h3, where m = 7 and x = 90]
    by (simp add: boot_def)
qed

text \<open>
  The claim as first stated (target = elapsed seconds + 180) fails where the 16-bit sum
  wraps: ringing at 65400 elapsed seconds, the snooze stores 44, not 65580, and the
  next tick (65402, above 44) already rings again.
\<close>

theorem snooze_wraps_counterexample:
  "state (boot\<lparr>seconds_passed := 65400, state := ALARM_RINGING\<rparr>) = ALARM_RINGING
 \<and> MINIMUM_TIME_BETWEEN_BUTTON_PRESSES_MILLIS
     \<le> 1000 - last_yellow_button_push (boot\<lparr>seconds_passed := 65400, state := ALARM_RINGING\<rparr>)
 \<and> unat (seconds_passed (boot\<lparr>seconds_passed := 65400, state := ALARM_RINGING\<rparr>)) = 65400
 \<and> unat (seconds_for_alarm_start
          (PCINT2_vect 0 1000 (boot\<lparr>seconds_passed := 65400, state := ALARM_RINGING\<rparr>)))
     = 44
 \<and> unat (seconds_for_alarm_start
          (PCINT2_vect 0 1000 (boot\<lparr>seconds_passed := 65400, state := ALARM_RINGING\<rparr>)))
     \<noteq> 65400 + 180
 \<and> state (TIMER1_COMPA_vect
          (PCINT2_vect 0 1000 (boot\<lparr>seconds_passed := 65400, state := ALARM_RINGING\<rparr>)))
     = ALARM_RINGING"
  by (simp add: boot_def PCINT2_vect_def TIMER1_COMPA_vect_def Let_def state_defs const_defs)

section \<open>The number of minutes selected\<close>

text \<open>
  C7. In the alarm-setting state an accepted decrease event leaves the minutes at 0
  when they are 0 (nothing changes but the button's timestamp); when they are above 0 it
  takes exactly 1 off, and it raises the force-display-clear flag exactly when the new
  value is 9 or 99 (a flag that was already raised stays raised). The state stays the
  alarm-setting state. The handler of the increase button never changes the flag.
\<close>

theorem decrease_in_setting:
  assumes "state s = SETTING_ALARM"
      and "MINIMUM_TIME_BETWEEN_BUTTON_PRESSES_MILLIS \<le> t - last_red_button_push s"
  shows "(number_of_minutes_selected s = 0 \<longrightarrow>
            INT1_vect t s = s\<lparr>last_red_button_push := t\<rparr>)
       \<and> (0 < number_of_minutes_selected s \<longrightarrow>
            number_of_minutes_selected (INT1_vect t s) = number_of_minutes_selected s - 1
          \<and> unat (number_of_minutes_selected (INT1_vect t s)) + 1
              = unat (number_of_minutes_selected s)
          \<and> force_lcd_clear (INT1_vect t s)
              = (force_lcd_clear s
                 \<or> number_of_minutes_selected (INT1_vect t s) = 9
                 \<or> number_of_minutes_selected (INT1_vect t s) = 99))
       \<and> state (INT1_vect t s) = SETTING_ALARM
       \<and> force_lcd_clear (PCINT2_vect p t' s') = force_lcd_clear s'"
proof -
  let ?m = "number_of_minutes_selected s"
  have a: "?m = 0 \<longrightarrow> INT1_vect t s = s\<lparr>last_red_button_push := t\<rparr>"
    using assms by (simp add: INT1_vect_def Let_def state_defs)
  have b: "state (INT1_vect t s) = SETTING_ALARM"
    using assms by (simp add: INT1_vect_def Let_def state_defs)
  have c: "force_lcd_clear (PCINT2_vect p t' s') = force_lcd_clear s'"
    by (simp add: PCINT2_vect_def Let_def)
  have d: "number_of_minutes_selected (INT1_vect t s) = ?m - 1" if "0 < ?m"
    using assms that by (simp add: INT1_vect_def Let_def state_defs)
  have e: "unat (?m - 1) + 1 = unat ?m" if "0 < ?m"
  proof -
    from that have nz: "?m \<noteq> 0" by auto
    then have "unat (?m - 1) = unat ?m - 1"
      by (rule unat_minus_one)
    moreover from nz have "unat ?m \<noteq> 0"
      by (simp add: unat_eq_zero)
    ultimately show ?thesis by simp
  qed
  have f: "force_lcd_clear (INT1_vect t s)
              = (force_lcd_clear s
                 \<or> number_of_minutes_selected (INT1_vect t s) = 9
                 \<or> number_of_minutes_selected (INT1_vect t s) = 99)"
    if "0 < ?m"
    using assms that by (simp add: INT1_vect_def Let_def state_defs)
  from a b c d e f show ?thesis by simp
qed

text \<open>
  An instance: 10 minutes selected, flag down; the decrease at 1000 ms gives 9 minutes
  and raises the flag. The increase at 2000 ms that follows leaves the flag as it is.
\<close>

theorem decrease_in_setting_witness:
  "state (boot\<lparr>state := SETTING_ALARM, number_of_minutes_selected := 10\<rparr>) = SETTING_ALARM
 \<and> MINIMUM_TIME_BETWEEN_BUTTON_PRESSES_MILLIS
     \<le> 1000 - last_red_button_push
                (boot\<lparr>state := SETTING_ALARM, number_of_minutes_selected := 10\<rparr>)
 \<and> 0 < number_of_minutes_selected
          (boot\<lparr>state := SETTING_ALARM, number_of_minutes_selected := 10\<rparr>)
 \<and> number_of_minutes_selected
     (INT1_vect 1000 (boot\<lparr>state := SETTING_ALARM, number_of_minutes_selected := 10\<rparr>)) = 9
 \<and> force_lcd_clear
     (INT1_vect 1000 (boot\<lparr>state := SETTING_ALARM, number_of_minutes_selected := 10\<rparr>))
 \<and> force_lcd_clear
     (PCINT2_vect 0 2000
        (INT1_vect 1000 (boot\<lparr>state := SETTING_ALARM, number_of_minutes_selected := 10\<rparr>)))"
proof -
  let ?s = "boot\<lparr>state := SETTING_ALARM, number_of_minutes_selected := 10\<rparr>"
  have h1: "state ?s = SETTING_ALARM" by simp
  have h2: "MINIMUM_TIME_BETWEEN_BUTTON_PRESSES_MILLIS \<le> 1000 - last_red_button_push ?s"
    by (simp add: boot_def const_defs)
  have h3: "0 < number_of_minutes_selected ?s" by simp
  show ?thesis
    using h1 h2 h3
      decrease_in_setting [OF h1 h2, where p = 0 and t' = 2000 and s' = "INT1_vect 1000 ?s"]
    by simp
qed

text \<open>
  C8, as amended. An accepted increase event in the idle state enters the
  alarm-setting state and sets the minutes to 1. Nothing resets the minutes when the
  state leaves the alarm-setting state: whenever an event ends in a state other than the
  alarm-setting state, the minutes are what they were before the event. So the counter
  keeps the selected value through the armed, ringing and idle states, until the next
  entry overwrites it with 1.
\<close>

theorem minutes_lifecycle:
  "(state s = INITIAL_STATE \<and> accepted yellow p t s \<longrightarrow>
      state (PCINT2_vect p t s) = SETTING_ALARM
    \<and> number_of_minutes_selected (PCINT2_vect p t s) = 1)
 \<and> (state (step e s') \<noteq> SETTING_ALARM \<longrightarrow>
      number_of_minutes_selected (step e s') = number_of_minutes_selected s')"
proof -
  have a: "state s = INITIAL_STATE \<and> accepted yellow p t s \<longrightarrow>
      state (PCINT2_vect p t s) = SETTING_ALARM
    \<and> number_of_minutes_selected (PCINT2_vect p t s) = 1"
    by (simp add: accepted_def PCINT2_vect_def Let_def state_defs)
  have b: "number_of_minutes_selected (step e s') = number_of_minutes_selected s'"
    if "state (step e s') \<noteq> SETTING_ALARM"
  proof (cases e)
    case Tick
    then show ?thesis by (simp add: TIMER1_COMPA_vect_def Let_def)
  next
    case (Blue t)
    then show ?thesis by (simp add: INT0_vect_def Let_def)
  next
    case (Red t)
    with that show ?thesis
      by (auto simp: INT1_vect_def Let_def state_defs split: if_splits)
  next
    case (Yellow p t)
    with that show ?thesis
      by (auto simp: PCINT2_vect_def Let_def state_defs split: if_splits)
  next
    case (Pass t1 t2)
    then show ?thesis by (simp add: loop_def Let_def split: prod.splits if_splits)
  qed
  from a b show ?thesis by blast
qed

text \<open>
  An instance: the entry from boot, and the confirm that leaves the alarm-setting state
  with 3 minutes selected.
\<close>

theorem minutes_lifecycle_witness:
  "state boot = INITIAL_STATE \<and> accepted yellow 0 1000 boot
 \<and> state (PCINT2_vect 0 1000 boot) = SETTING_ALARM
 \<and> number_of_minutes_selected (PCINT2_vect 0 1000 boot) = 1
 \<and> state (step (Blue 4000)
            (boot\<lparr>state := SETTING_ALARM, number_of_minutes_selected := 3\<rparr>))
     \<noteq> SETTING_ALARM
 \<and> number_of_minutes_selected
      (step (Blue 4000) (boot\<lparr>state := SETTING_ALARM, number_of_minutes_selected := 3\<rparr>))
     = 3"
proof -
  let ?s' = "boot\<lparr>state := SETTING_ALARM, number_of_minutes_selected := 3\<rparr>"
  have h1: "state boot = INITIAL_STATE \<and> accepted yellow 0 1000 boot"
    by (simp add: boot_def accepted_def const_defs)
  have h2: "state (step (Blue 4000) ?s') \<noteq> SETTING_ALARM"
    by (simp add: boot_def INT0_vect_def Let_def state_defs const_defs)
  show ?thesis
    using h1 h2
      minutes_lifecycle [where s = boot and p = 0 and t = 1000
                           and e = "Blue 4000" and s' = ?s']
    by simp
qed

text \<open>
  The claim as first stated (the counter is reset on leaving the alarm-setting state)
  fails on the run from boot: three increases select 3 minutes, the confirm moves to
  the armed state, and the counter still holds 3.
\<close>

theorem minutes_kept_counterexample:
  "state (run [Yellow 0 1000, Yellow 0 2000, Yellow 0 3000] boot) = SETTING_ALARM
 \<and> number_of_minutes_selected (run [Yellow 0 1000, Yellow 0 2000, Yellow 0 3000] boot) = 3
 \<and> state (run [Yellow 0 1000, Yellow 0 2000, Yellow 0 3000, Blue 4000] boot) = ALARM_SET
 \<and> number_of_minutes_selected
      (run [Yellow 0 1000, Yellow 0 2000, Yellow 0 3000, Blue 4000] boot) = 3"
  by (simp add: boot_def PCINT2_vect_def INT0_vect_def Let_def state_defs const_defs)

section \<open>The state stays in the enumeration\<close>

lemma step_state_valid:
  assumes "state s = INITIAL_STATE \<or> state s = SETTING_ALARM
         \<or> state s = ALARM_SET \<or> state s = ALARM_RINGING"
  shows "state (step e s) = INITIAL_STATE \<or> state (step e s) = SETTING_ALARM
       \<or> state (step e s) = ALARM_SET \<or> state (step e s) = ALARM_RINGING"
proof (cases e)
  case Tick
  with assms show ?thesis by (auto simp: TIMER1_COMPA_vect_def Let_def state_defs)
next
  case (Blue t)
  with assms show ?thesis by (auto simp: INT0_vect_def Let_def state_defs)
next
  case (Red t)
  with assms show ?thesis by (auto simp: INT1_vect_def Let_def state_defs)
next
  case (Yellow p t)
  with assms show ?thesis by (auto simp: PCINT2_vect_def Let_def state_defs)
next
  case (Pass t1 t2)
  with assms show ?thesis by (auto simp: loop_def Let_def split: prod.splits if_splits)
qed

lemma run_state_valid:
  "state s = INITIAL_STATE \<or> state s = SETTING_ALARM
     \<or> state s = ALARM_SET \<or> state s = ALARM_RINGING
   \<Longrightarrow> state (run es s) = INITIAL_STATE \<or> state (run es s) = SETTING_ALARM
       \<or> state (run es s) = ALARM_SET \<or> state (run es s) = ALARM_RINGING"
proof (induction es arbitrary: s)
  case Nil
  then show ?case by simp
next
  case (Cons e es)
  from Cons.prems
  have "state (step e s) = INITIAL_STATE \<or> state (step e s) = SETTING_ALARM
       \<or> state (step e s) = ALARM_SET \<or> state (step e s) = ALARM_RINGING"
    by (rule step_state_valid)
  then show ?case using Cons.IH by simp
qed

text \<open>
  C9. After any sequence of ticks, button interrupts and loop passes from boot, the
  state variable holds one of the four values 0 (idle), 1 (setting the alarm), 2 (armed),
  3 (ringing).
\<close>

theorem state_in_enumeration:
  "state (run es boot) \<in> {INITIAL_STATE, SETTING_ALARM, ALARM_SET, ALARM_RINGING}
 \<and> state (run es boot) \<in> {0, 1, 2, 3}"
proof -
  have "state boot = INITIAL_STATE" by (simp add: boot_def)
  then have "state (run es boot) = INITIAL_STATE \<or> state (run es boot) = SETTING_ALARM
       \<or> state (run es boot) = ALARM_SET \<or> state (run es boot) = ALARM_RINGING"
    using run_state_valid [of boot es] by simp
  then show ?thesis by (auto simp: state_defs)
qed

section \<open>Ticks\<close>

lemma tick_fields:
  "seconds_passed (TIMER1_COMPA_vect s) = seconds_passed s + 2"
  "seconds_for_alarm_start (TIMER1_COMPA_vect s) = seconds_for_alarm_start s"
  "state (TIMER1_COMPA_vect s) =
     (if seconds_for_alarm_start s \<le> seconds_passed s + 2 \<and> state s = ALARM_SET
      then ALARM_RINGING else state s)"
  by (simp_all add: TIMER1_COMPA_vect_def Let_def state_defs)

lemma ticks_target: "seconds_for_alarm_start (ticks n s) = seconds_for_alarm_start s"
  by (induction n) (simp_all add: tick_fields)

lemma ticks_seconds: "seconds_passed (ticks n s) = seconds_passed s + 2 * of_nat n"
  by (induction n) (simp_all add: tick_fields algebra_simps)

lemma ticks_not_armed: "state s \<noteq> ALARM_SET \<Longrightarrow> state (ticks n s) = state s"
  by (induction n) (simp_all add: tick_fields)

lemma unat_add_twice:
  fixes x :: uint
  assumes "unat x + 2 * k < 65536"
  shows "unat (x + 2 * of_nat k) = unat x + 2 * k"
proof -
  from assms have k: "k < 65536" by simp
  then have "unat (of_nat k :: uint) = k"
    by (simp add: unat_of_nat)
  then have "unat (2 * of_nat k :: uint) = 2 * k"
    using assms by (simp add: unat_word_ariths)
  then show ?thesis
    using assms by (simp add: unat_word_ariths)
qed

lemma ticks_armed_until:
  assumes armed: "state s = ALARM_SET"
    and N1: "1 \<le> N"
    and nowrap: "unat (seconds_passed s) + 2 * N < 65536"
    and reach: "unat (seconds_for_alarm_start s) \<le> unat (seconds_passed s) + 2 * N"
    and before: "N = 1 \<or> unat (seconds_passed s) + 2 * (N - 1) < unat (seconds_for_alarm_start s)"
  shows "state (ticks n s) = (if N \<le> n then ALARM_RINGING else ALARM_SET)"
proof (induction n)
  case 0
  from armed N1 show ?case by simp
next
  case (Suc n)
  show ?case
  proof (cases "N \<le> n")
    case True
    with Suc have "state (ticks n s) = ALARM_RINGING" by simp
    with True show ?thesis by (simp add: tick_fields state_defs)
  next
    case False
    with Suc have st: "state (ticks n s) = ALARM_SET" by simp
    from False nowrap have "unat (seconds_passed s) + 2 * Suc n < 65536" by simp
    then have u: "unat (seconds_passed s + 2 * of_nat (Suc n)) = unat (seconds_passed s) + 2 * Suc n"
      by (rule unat_add_twice)
    have sp: "seconds_passed (ticks n s) + 2 = seconds_passed s + 2 * of_nat (Suc n)"
      by (simp add: ticks_seconds algebra_simps)
    have fire: "(seconds_for_alarm_start (ticks n s) \<le> seconds_passed (ticks n s) + 2)
        = (unat (seconds_for_alarm_start s) \<le> unat (seconds_passed s) + 2 * Suc n)"
      unfolding sp ticks_target word_le_nat_alt u ..
    have nxt: "state (ticks (Suc n) s) =
        (if unat (seconds_for_alarm_start s) \<le> unat (seconds_passed s) + 2 * Suc n
         then ALARM_RINGING else ALARM_SET)"
      using st fire by (simp add: tick_fields)
    show ?thesis
    proof (cases "Suc n = N")
      case True
      with reach have "unat (seconds_for_alarm_start s) \<le> unat (seconds_passed s) + 2 * Suc n"
        by simp
      with nxt True show ?thesis by simp
    next
      case neq: False
      with False have lt: "Suc n < N" by simp
      with before have "unat (seconds_passed s) + 2 * (N - 1) < unat (seconds_for_alarm_start s)"
        by auto
      with lt have "\<not> unat (seconds_for_alarm_start s) \<le> unat (seconds_passed s) + 2 * Suc n"
        by auto
      with nxt lt show ?thesis by simp
    qed
  qed
qed

lemma ticks_armed_general:
  assumes "state s = ALARM_SET"
  shows "state (ticks n s) =
     (if \<exists>k \<in> {1..n}. seconds_for_alarm_start s \<le> seconds_passed s + 2 * of_nat k
      then ALARM_RINGING else ALARM_SET)"
proof (induction n)
  case 0
  with assms show ?case by simp
next
  case (Suc n)
  have split: "{1..Suc n} = insert (Suc n) {1..n}" by auto
  have sp: "seconds_passed (ticks n s) + 2 = seconds_passed s + 2 * of_nat (Suc n)"
    by (simp add: ticks_seconds algebra_simps)
  show ?case
  proof (cases "\<exists>k \<in> {1..n}. seconds_for_alarm_start s \<le> seconds_passed s + 2 * of_nat k")
    case True
    with Suc have "state (ticks n s) = ALARM_RINGING" by simp
    moreover from True have "\<exists>k \<in> {1..Suc n}. seconds_for_alarm_start s \<le> seconds_passed s + 2 * of_nat k"
      unfolding split by blast
    ultimately show ?thesis by (simp add: tick_fields state_defs)
  next
    case False
    with Suc have st: "state (ticks n s) = ALARM_SET" by simp
    from False have "(\<exists>k \<in> {1..Suc n}. seconds_for_alarm_start s \<le> seconds_passed s + 2 * of_nat k)
       = (seconds_for_alarm_start s \<le> seconds_passed s + 2 * of_nat (Suc n))"
      unfolding split by blast
    then show ?thesis
      using st sp by (simp add: tick_fields ticks_target del: of_nat_Suc)
  qed
qed

lemma ticks_idle:
  "state s \<noteq> ALARM_SET \<Longrightarrow>
   ticks n s = s\<lparr>seconds_passed := seconds_passed s + 2 * of_nat n\<rparr>"
proof (induction n)
  case 0
  then show ?case by simp
next
  case (Suc n)
  then show ?case
    by (simp add: TIMER1_COMPA_vect_def Let_def algebra_simps)
qed

text \<open>
  After 32700 ticks from boot, 18 hours and 10 minutes, the elapsed seconds stand at
  65400, 136 below the wrap of the 16-bit counter.
\<close>

lemma ticks_near_wrap: "ticks 32700 boot = boot\<lparr>seconds_passed := 65400\<rparr>"
proof -
  have "state boot \<noteq> ALARM_SET" by (simp add: boot_def state_defs)
  then have "ticks 32700 boot = boot\<lparr>seconds_passed := seconds_passed boot + 2 * of_nat 32700\<rparr>"
    by (rule ticks_idle)
  then show ?thesis by (simp add: boot_def)
qed

lemma confirm_fields:
  assumes "state s = SETTING_ALARM"
      and "MINIMUM_TIME_BETWEEN_BUTTON_PRESSES_MILLIS \<le> t - last_blue_button_push s"
  shows "state (INT0_vect t s) = ALARM_SET"
    "changed_state (INT0_vect t s)"
    "seconds_passed (INT0_vect t s) = seconds_passed s"
    "seconds_for_alarm_start (INT0_vect t s) = seconds_passed s + 60 * number_of_minutes_selected s"
  using assms by (simp_all add: INT0_vect_def Let_def state_defs const_defs)

lemma unat_target:
  fixes e m :: uint
  shows "unat (e + 60 * m) = (unat e + 60 * unat m) mod 65536"
  by (simp add: unat_word_ariths mod_simps)

section \<open>From confirm to ringing\<close>

text \<open>
  C1, as amended. In the alarm-setting state with \<open>M\<close> minutes selected, an accepted
  confirm at \<open>E\<close> elapsed seconds moves to the armed state and sets the target to
  \<open>E + 60 M\<close> in 16-bit unsigned arithmetic, that is \<open>(E + 60 M) mod 65536\<close>. Each tick
  then adds 2 to the elapsed seconds (modulo 65536), and the state after \<open>n\<close> ticks is
  ringing exactly when one of the first \<open>n\<close> ticks brought the elapsed seconds to the
  target or past it, as 16-bit values. When nothing wraps (\<open>E + max 2 (60 M) < 65536\<close>)
  the target is \<open>E + 60 M\<close> and the state becomes ringing exactly on tick number
  \<open>max 1 (30 M)\<close>: for \<open>M \<ge> 1\<close> that is the tick that brings the elapsed seconds to
  \<open>E + 60 M\<close>, and the state is still armed one tick earlier. Ticks in a state other
  than the armed state never change the state.
\<close>

theorem confirm_round_trip:
  assumes "state s = SETTING_ALARM"
      and "MINIMUM_TIME_BETWEEN_BUTTON_PRESSES_MILLIS \<le> t - last_blue_button_push s"
  shows "state (INT0_vect t s) = ALARM_SET
       \<and> seconds_for_alarm_start (INT0_vect t s)
           = seconds_passed s + 60 * number_of_minutes_selected s
       \<and> unat (seconds_for_alarm_start (INT0_vect t s))
           = (unat (seconds_passed s) + 60 * unat (number_of_minutes_selected s)) mod 65536
       \<and> seconds_passed (ticks n (INT0_vect t s)) = seconds_passed s + 2 * of_nat n
       \<and> state (ticks n (INT0_vect t s))
           = (if \<exists>k \<in> {1..n}. seconds_for_alarm_start (INT0_vect t s)
                                 \<le> seconds_passed s + 2 * of_nat k
              then ALARM_RINGING else ALARM_SET)
       \<and> (unat (seconds_passed s) + max 2 (60 * unat (number_of_minutes_selected s)) < 65536 \<longrightarrow>
            unat (seconds_for_alarm_start (INT0_vect t s))
              = unat (seconds_passed s) + 60 * unat (number_of_minutes_selected s)
          \<and> state (ticks n (INT0_vect t s))
              = (if max 1 (30 * unat (number_of_minutes_selected s)) \<le> n
                 then ALARM_RINGING else ALARM_SET)
          \<and> (n \<le> max 1 (30 * unat (number_of_minutes_selected s)) \<longrightarrow>
                unat (seconds_passed (ticks n (INT0_vect t s)))
                  = unat (seconds_passed s) + 2 * n))
       \<and> (state s' \<noteq> ALARM_SET \<longrightarrow> state (ticks n s') = state s')"
proof -
  let ?s1 = "INT0_vect t s"
  let ?E = "seconds_passed s"
  let ?M = "number_of_minutes_selected s"
  note cf = confirm_fields [OF assms]
  have a: "state ?s1 = ALARM_SET" by (rule cf)
  have b: "seconds_for_alarm_start ?s1 = ?E + 60 * ?M" by (rule cf)
  have c: "unat (seconds_for_alarm_start ?s1) = (unat ?E + 60 * unat ?M) mod 65536"
    unfolding b by (rule unat_target)
  have d: "seconds_passed (ticks n ?s1) = ?E + 2 * of_nat n"
    by (simp add: ticks_seconds cf)
  have e: "state (ticks n ?s1)
           = (if \<exists>k \<in> {1..n}. seconds_for_alarm_start ?s1 \<le> ?E + 2 * of_nat k
              then ALARM_RINGING else ALARM_SET)"
    using ticks_armed_general [OF a, of n] by (simp add: cf)
  have f: "unat (seconds_for_alarm_start ?s1) = unat ?E + 60 * unat ?M
          \<and> state (ticks n ?s1)
              = (if max 1 (30 * unat ?M) \<le> n then ALARM_RINGING else ALARM_SET)
          \<and> (n \<le> max 1 (30 * unat ?M) \<longrightarrow>
                unat (seconds_passed (ticks n ?s1)) = unat ?E + 2 * n)"
    if nw: "unat ?E + max 2 (60 * unat ?M) < 65536"
  proof -
    let ?N = "max 1 (30 * unat ?M)"
    from nw have "unat ?E + 60 * unat ?M < 65536" by simp
    with c have t: "unat (seconds_for_alarm_start ?s1) = unat ?E + 60 * unat ?M" by simp
    have twoN: "2 * ?N = max 2 (60 * unat ?M)" by simp
    have "state (ticks n ?s1) = (if ?N \<le> n then ALARM_RINGING else ALARM_SET)"
    proof (rule ticks_armed_until [OF a])
      show "1 \<le> ?N" by simp
      show "unat (seconds_passed ?s1) + 2 * ?N < 65536"
        using nw unfolding twoN by (simp add: cf)
      show "unat (seconds_for_alarm_start ?s1) \<le> unat (seconds_passed ?s1) + 2 * ?N"
        unfolding twoN t by (simp add: cf)
      show "?N = 1 \<or> unat (seconds_passed ?s1) + 2 * (?N - 1) < unat (seconds_for_alarm_start ?s1)"
        unfolding t by (auto simp: cf max_def)
    qed
    moreover have "unat (seconds_passed (ticks n ?s1)) = unat ?E + 2 * n" if "n \<le> ?N"
    proof -
      from that have "2 * n \<le> 2 * ?N" by simp
      with nw twoN have "unat ?E + 2 * n < 65536" by linarith
      then show ?thesis unfolding d by (rule unat_add_twice)
    qed
    ultimately show ?thesis using t by simp
  qed
  have g: "state s' \<noteq> ALARM_SET \<longrightarrow> state (ticks n s') = state s'"
    by (simp add: ticks_not_armed)
  from a b c d e f g show ?thesis by blast
qed

text \<open>
  An instance, the scenario of the specification: 3 minutes selected, confirm at 100
  elapsed seconds; the target is 280, the state is still armed after 89 ticks (278 s)
  and ringing after 90 ticks (280 s).
\<close>

theorem confirm_round_trip_witness:
  "state (boot\<lparr>seconds_passed := 100, number_of_minutes_selected := 3,
              state := SETTING_ALARM\<rparr>) = SETTING_ALARM
 \<and> MINIMUM_TIME_BETWEEN_BUTTON_PRESSES_MILLIS
     \<le> 1000 - last_blue_button_push
                (boot\<lparr>seconds_passed := 100, number_of_minutes_selected := 3,
                      state := SETTING_ALARM\<rparr>)
 \<and> unat (seconds_for_alarm_start
          (INT0_vect 1000 (boot\<lparr>seconds_passed := 100, number_of_minutes_selected := 3,
                                state := SETTING_ALARM\<rparr>))) = 280
 \<and> state (ticks 89 (INT0_vect 1000 (boot\<lparr>seconds_passed := 100,
                                          number_of_minutes_selected := 3,
                                          state := SETTING_ALARM\<rparr>))) = ALARM_SET
 \<and> state (ticks 90 (INT0_vect 1000 (boot\<lparr>seconds_passed := 100,
                                          number_of_minutes_selected := 3,
                                          state := SETTING_ALARM\<rparr>))) = ALARM_RINGING
 \<and> unat (seconds_passed
          (ticks 90 (INT0_vect 1000 (boot\<lparr>seconds_passed := 100,
                                          number_of_minutes_selected := 3,
                                          state := SETTING_ALARM\<rparr>)))) = 280"
proof -
  let ?s = "boot\<lparr>seconds_passed := 100, number_of_minutes_selected := 3,
                 state := SETTING_ALARM\<rparr>"
  let ?E = "unat (seconds_passed ?s)"
  let ?M = "unat (number_of_minutes_selected ?s)"
  have h1: "state ?s = SETTING_ALARM" by simp
  have h2: "MINIMUM_TIME_BETWEEN_BUTTON_PRESSES_MILLIS \<le> 1000 - last_blue_button_push ?s"
    by (simp add: boot_def const_defs)
  have h3: "?E + max 2 (60 * ?M) < 65536"
    by simp
  have v: "?E = 100" "?M = 3" by simp_all
  have a: "unat (seconds_for_alarm_start (INT0_vect 1000 ?s)) = ?E + 60 * ?M
      \<and> state (ticks 89 (INT0_vect 1000 ?s))
          = (if max 1 (30 * ?M) \<le> 89 then ALARM_RINGING else ALARM_SET)"
    using h3 confirm_round_trip [OF h1 h2, where n = 89 and s' = boot] by blast
  have b: "state (ticks 90 (INT0_vect 1000 ?s))
          = (if max 1 (30 * ?M) \<le> 90 then ALARM_RINGING else ALARM_SET)
      \<and> (90 \<le> max 1 (30 * ?M) \<longrightarrow>
            unat (seconds_passed (ticks 90 (INT0_vect 1000 ?s))) = ?E + 2 * 90)"
    using h3 confirm_round_trip [OF h1 h2, where n = 90 and s' = boot] by blast
  from a have a': "unat (seconds_for_alarm_start (INT0_vect 1000 ?s)) = 280
      \<and> state (ticks 89 (INT0_vect 1000 ?s)) = ALARM_SET"
    unfolding v by simp
  from b have b': "state (ticks 90 (INT0_vect 1000 ?s)) = ALARM_RINGING
      \<and> unat (seconds_passed (ticks 90 (INT0_vect 1000 ?s))) = 280"
    unfolding v by simp
  from h1 h2 a' b' show ?thesis by blast
qed

text \<open>
  The claim as first stated (target = \<open>E + 60 M\<close>, ringing at that boundary) fails where
  the 16-bit sum wraps. After 32700 ticks from boot the elapsed seconds are 65400; five
  increases and a confirm select 5 minutes; the target stored is 164, not 65700, and
  the first tick after the confirm (65402 elapsed seconds, 2 s later instead of 300 s)
  already moves to ringing.
\<close>

theorem confirm_wraps_counterexample:
  "unat (seconds_passed (ticks 32700 boot)) = 65400
 \<and> state (run [Yellow 0 65400100, Yellow 0 65400400, Yellow 0 65400700,
               Yellow 0 65401000, Yellow 0 65401300] (ticks 32700 boot)) = SETTING_ALARM
 \<and> number_of_minutes_selected
      (run [Yellow 0 65400100, Yellow 0 65400400, Yellow 0 65400700,
            Yellow 0 65401000, Yellow 0 65401300] (ticks 32700 boot)) = 5
 \<and> state (run [Yellow 0 65400100, Yellow 0 65400400, Yellow 0 65400700,
               Yellow 0 65401000, Yellow 0 65401300, Blue 65401600] (ticks 32700 boot))
     = ALARM_SET
 \<and> unat (seconds_for_alarm_start
          (run [Yellow 0 65400100, Yellow 0 65400400, Yellow 0 65400700,
                Yellow 0 65401000, Yellow 0 65401300, Blue 65401600] (ticks 32700 boot)))
     = 164
 \<and> unat (seconds_for_alarm_start
          (run [Yellow 0 65400100, Yellow 0 65400400, Yellow 0 65400700,
                Yellow 0 65401000, Yellow 0 65401300, Blue 65401600] (ticks 32700 boot)))
     \<noteq> 65400 + 5 * 60
 \<and> state (run [Yellow 0 65400100, Yellow 0 65400400, Yellow 0 65400700,
               Yellow 0 65401000, Yellow 0 65401300, Blue 65401600, Tick]
              (ticks 32700 boot)) = ALARM_RINGING
 \<and> unat (seconds_passed
          (run [Yellow 0 65400100, Yellow 0 65400400, Yellow 0 65400700,
                Yellow 0 65401000, Yellow 0 65401300, Blue 65401600, Tick]
             (ticks 32700 boot))) = 65402"
  unfolding ticks_near_wrap
  by (simp add: boot_def PCINT2_vect_def INT0_vect_def TIMER1_COMPA_vect_def Let_def
        state_defs const_defs)

section \<open>Parity of the elapsed seconds and of the target\<close>

lemma even_unat_add:
  fixes x y :: uint
  assumes "even (unat x)" "even (unat y)"
  shows "even (unat (x + y))"
proof -
  have "unat (x + y) = (unat x + unat y) mod 65536"
    by (simp add: unat_word_ariths)
  moreover have "even ((unat x + unat y) mod 65536) = even (unat x + unat y)"
    by (rule dvd_mod_iff) simp
  ultimately show ?thesis using assms by simp
qed

lemma even_unat_mult:
  fixes x y :: uint
  assumes "even (unat x)"
  shows "even (unat (x * y))"
proof -
  have "unat (x * y) = (unat x * unat y) mod 65536"
    by (simp add: unat_word_ariths)
  moreover have "even ((unat x * unat y) mod 65536) = even (unat x * unat y)"
    by (rule dvd_mod_iff) simp
  ultimately show ?thesis using assms by simp
qed

lemma step_parity:
  assumes "even (unat (seconds_passed s))" "even (unat (seconds_for_alarm_start s))"
  shows "even (unat (seconds_passed (step e s))) \<and> even (unat (seconds_for_alarm_start (step e s)))"
proof (cases e)
  case Tick
  have "even (unat (seconds_passed s + 2))"
    using assms(1) by (intro even_unat_add) simp_all
  with assms Tick show ?thesis by (simp add: tick_fields)
next
  case (Blue t)
  have "even (unat (seconds_passed s + 60 * number_of_minutes_selected s))"
    using assms(1) by (intro even_unat_add even_unat_mult) simp_all
  with assms Blue show ?thesis by (simp add: INT0_vect_def Let_def const_defs)
next
  case (Red t)
  with assms show ?thesis by (simp add: INT1_vect_def Let_def)
next
  case (Yellow p t)
  have "even (unat (seconds_passed s + 180))"
    using assms(1) by (intro even_unat_add) simp_all
  with assms Yellow show ?thesis by (simp add: PCINT2_vect_def Let_def snooze_offset)
next
  case (Pass t1 t2)
  with assms show ?thesis by (simp add: loop_def Let_def split: prod.splits)
qed

lemma run_parity:
  "even (unat (seconds_passed s)) \<Longrightarrow> even (unat (seconds_for_alarm_start s)) \<Longrightarrow>
   even (unat (seconds_passed (run es s))) \<and> even (unat (seconds_for_alarm_start (run es s)))"
proof (induction es arbitrary: s)
  case Nil
  then show ?case by simp
next
  case (Cons e es)
  from Cons.prems have "even (unat (seconds_passed (step e s))) \<and> even (unat (seconds_for_alarm_start (step e s)))"
    by (rule step_parity)
  then show ?case using Cons.IH by simp
qed

lemma exact_firing:
  assumes armed: "state s = ALARM_SET"
    and ev: "even (unat (seconds_passed s))" "even (unat (seconds_for_alarm_start s))"
    and lt: "seconds_passed s < seconds_for_alarm_start s"
  shows "state (ticks n s) =
           (if (unat (seconds_for_alarm_start s) - unat (seconds_passed s)) div 2 \<le> n
            then ALARM_RINGING else ALARM_SET)"
    and "seconds_passed (ticks ((unat (seconds_for_alarm_start s) - unat (seconds_passed s)) div 2) s)
           = seconds_for_alarm_start s"
proof -
  let ?E = "unat (seconds_passed s)"
  let ?T = "unat (seconds_for_alarm_start s)"
  let ?N = "(?T - ?E) div 2"
  from lt have l: "?E < ?T" by (simp add: word_less_nat_alt)
  have T: "?T < 65536" using unsigned_less [of "seconds_for_alarm_start s", where ?'a = nat] by simp
  from ev l have twoN: "?E + 2 * ?N = ?T" by presburger
  from ev l have N1: "1 \<le> ?N" by presburger
  show "state (ticks n s) = (if ?N \<le> n then ALARM_RINGING else ALARM_SET)"
  proof (rule ticks_armed_until [OF armed N1])
    show "?E + 2 * ?N < 65536" using twoN T by simp
    show "?T \<le> ?E + 2 * ?N" using twoN by simp
    show "?N = 1 \<or> ?E + 2 * (?N - 1) < ?T" using twoN N1 by linarith
  qed
  have "?E + 2 * ?N < 65536" using twoN T by simp
  then have "unat (seconds_passed s + 2 * of_nat ?N) = ?E + 2 * ?N"
    by (rule unat_add_twice)
  with twoN have "unat (seconds_passed s + 2 * of_nat ?N) = ?T" by simp
  then have "seconds_passed s + 2 * of_nat ?N = seconds_for_alarm_start s"
    by (simp add: word_unat_eq_iff)
  then show "seconds_passed (ticks ?N s) = seconds_for_alarm_start s"
    by (simp add: ticks_seconds)
qed

text \<open>
  C10, as amended. After any run from boot the elapsed seconds are even and the target
  is even. In the armed state, when both are even and the elapsed seconds are strictly
  below the target, the alarm fires on the tick that makes the elapsed seconds equal to
  the target: the state after \<open>n\<close> ticks is ringing exactly when \<open>n\<close> is at least
  half the distance, and after that many ticks the elapsed seconds are the target.
  (Nothing is said of an alarm armed with a target that is not above the elapsed
  seconds.)
\<close>

theorem parity_and_exact_firing:
  "even (unat (seconds_passed (run es boot)))
 \<and> even (unat (seconds_for_alarm_start (run es boot)))
 \<and> (state s = ALARM_SET \<and> even (unat (seconds_passed s))
      \<and> even (unat (seconds_for_alarm_start s))
      \<and> seconds_passed s < seconds_for_alarm_start s \<longrightarrow>
      state (ticks n s) =
        (if (unat (seconds_for_alarm_start s) - unat (seconds_passed s)) div 2 \<le> n
         then ALARM_RINGING else ALARM_SET)
    \<and> seconds_passed
        (ticks ((unat (seconds_for_alarm_start s) - unat (seconds_passed s)) div 2) s)
        = seconds_for_alarm_start s)"
proof -
  have "even (unat (seconds_passed boot))" "even (unat (seconds_for_alarm_start boot))"
    by (simp_all add: boot_def)
  then have "even (unat (seconds_passed (run es boot)))
      \<and> even (unat (seconds_for_alarm_start (run es boot)))"
    by (rule run_parity)
  then show ?thesis
    using exact_firing(1) [of s n] exact_firing(2) [of s] by blast
qed

text \<open>
  An instance: armed at 100 elapsed seconds with the target at 160; still armed after
  29 ticks, ringing after 30, with the elapsed seconds at 160.
\<close>

theorem parity_and_exact_firing_witness:
  "state (boot\<lparr>seconds_passed := 100, seconds_for_alarm_start := 160,
              state := ALARM_SET\<rparr>) = ALARM_SET
 \<and> even (unat (seconds_passed
      (boot\<lparr>seconds_passed := 100, seconds_for_alarm_start := 160, state := ALARM_SET\<rparr>)))
 \<and> even (unat (seconds_for_alarm_start
      (boot\<lparr>seconds_passed := 100, seconds_for_alarm_start := 160, state := ALARM_SET\<rparr>)))
 \<and> seconds_passed
      (boot\<lparr>seconds_passed := 100, seconds_for_alarm_start := 160, state := ALARM_SET\<rparr>)
     < seconds_for_alarm_start
      (boot\<lparr>seconds_passed := 100, seconds_for_alarm_start := 160, state := ALARM_SET\<rparr>)
 \<and> state (ticks 29
      (boot\<lparr>seconds_passed := 100, seconds_for_alarm_start := 160, state := ALARM_SET\<rparr>))
     = ALARM_SET
 \<and> state (ticks 30
      (boot\<lparr>seconds_passed := 100, seconds_for_alarm_start := 160, state := ALARM_SET\<rparr>))
     = ALARM_RINGING
 \<and> seconds_passed (ticks 30
      (boot\<lparr>seconds_passed := 100, seconds_for_alarm_start := 160, state := ALARM_SET\<rparr>))
     = 160"
proof -
  let ?s = "boot\<lparr>seconds_passed := 100, seconds_for_alarm_start := 160,
                 state := ALARM_SET\<rparr>"
  have h: "state ?s = ALARM_SET \<and> even (unat (seconds_passed ?s))
      \<and> even (unat (seconds_for_alarm_start ?s))
      \<and> seconds_passed ?s < seconds_for_alarm_start ?s"
    by simp
  have v: "(unat (seconds_for_alarm_start ?s) - unat (seconds_passed ?s)) div 2 = 30"
    by simp
  have a: "state (ticks 29 ?s) =
        (if (unat (seconds_for_alarm_start ?s) - unat (seconds_passed ?s)) div 2 \<le> 29
         then ALARM_RINGING else ALARM_SET)"
    using h parity_and_exact_firing [where es = "[]" and s = ?s and n = 29] by blast
  have b: "state (ticks 30 ?s) =
        (if (unat (seconds_for_alarm_start ?s) - unat (seconds_passed ?s)) div 2 \<le> 30
         then ALARM_RINGING else ALARM_SET)
      \<and> seconds_passed
          (ticks ((unat (seconds_for_alarm_start ?s) - unat (seconds_passed ?s)) div 2) ?s)
          = seconds_for_alarm_start ?s"
    using h parity_and_exact_firing [where es = "[]" and s = ?s and n = 30] by blast
  from a have a': "state (ticks 29 ?s) = ALARM_SET"
    unfolding v by simp
  from b have b': "state (ticks 30 ?s) = ALARM_RINGING
      \<and> seconds_passed (ticks 30 ?s) = 160"
    unfolding v by simp
  from h a' b' show ?thesis by blast
qed

text \<open>
  The claim as first stated (the alarm fires on a tick where the elapsed seconds equal
  the target) fails from boot: an increase, a decrease and a confirm arm the alarm with
  0 minutes, target 0 at 0 elapsed seconds; the first tick moves to ringing with the
  elapsed seconds at 2.
\<close>

theorem exact_firing_counterexample:
  "state (run [Yellow 0 1000, Red 1300, Blue 1600] boot) = ALARM_SET
 \<and> seconds_for_alarm_start (run [Yellow 0 1000, Red 1300, Blue 1600] boot) = 0
 \<and> state (run [Yellow 0 1000, Red 1300, Blue 1600, Tick] boot) = ALARM_RINGING
 \<and> seconds_passed (run [Yellow 0 1000, Red 1300, Blue 1600, Tick] boot) = 2
 \<and> seconds_for_alarm_start (run [Yellow 0 1000, Red 1300, Blue 1600, Tick] boot) = 0"
  by (simp add: boot_def PCINT2_vect_def INT0_vect_def INT1_vect_def TIMER1_COMPA_vect_def
        Let_def state_defs const_defs)

section \<open>The state-changed flag\<close>

lemma step_sets_flag:
  assumes "state (step e s) \<noteq> state s"
  shows "changed_state (step e s)"
proof (cases e)
  case Tick
  with assms show ?thesis by (auto simp: TIMER1_COMPA_vect_def Let_def split: if_splits)
next
  case (Blue t)
  with assms show ?thesis by (auto simp: INT0_vect_def Let_def split: if_splits)
next
  case (Red t)
  with assms show ?thesis by (auto simp: INT1_vect_def Let_def split: if_splits)
next
  case (Yellow p t)
  with assms show ?thesis by (auto simp: PCINT2_vect_def Let_def split: if_splits)
next
  case (Pass t1 t2)
  with assms show ?thesis by (auto simp: loop_def Let_def split: if_splits prod.splits)
qed

lemma loop_entry_other:
  assumes "changed_state s" "state s \<noteq> ALARM_RINGING"
  shows "fst (loop now1 now2 s) = fst (loop now1 now2 (s\<lparr>changed_state := False\<rparr>))"
    "snd (loop now1 now2 s) = [lcd_clear, stop_car] @ snd (loop now1 now2 (s\<lparr>changed_state := False\<rparr>))"
    "\<not> changed_state (fst (loop now1 now2 s))"
    "direction (fst (loop now1 now2 s)) = direction s"
    "current_direction_start (fst (loop now1 now2 s)) = current_direction_start s"
    "count_list (snd (loop now1 now2 s)) stop_car = 1"
  using assms by (simp_all add: loop_def Let_def)

lemma loop_no_entry:
  assumes "\<not> changed_state s"
  shows "\<not> changed_state (fst (loop now1 now2 s))" "stop_car \<notin> set (snd (loop now1 now2 s))"
  using assms by (simp_all add: loop_def Let_def)

text \<open>
  C5. Every event that changes the state sets the state-changed flag. A loop pass that
  finds the flag set clears it and performs the entry action of the state it finds. In
  the ringing state it clears the display, sets the direction to false, sets the window
  start to the clock reading and does nothing else in that pass. In every other state
  it clears the display, stops the motor once, and goes on as a pass without the flag
  does; the direction and the window start stay as they were. A pass that finds the
  flag clear leaves it clear and does not stop the motor.
\<close>

theorem changed_state_handoff:
  "(state (step e s) \<noteq> state s \<longrightarrow> changed_state (step e s))
 \<and> (changed_state s' \<and> state s' = ALARM_RINGING \<longrightarrow>
      loop now1 now2 s'
        = (s'\<lparr>changed_state := False, direction := False,
               current_direction_start := now1\<rparr>, [lcd_clear]))
 \<and> (changed_state s' \<and> state s' \<noteq> ALARM_RINGING \<longrightarrow>
      fst (loop now1 now2 s') = fst (loop now1 now2 (s'\<lparr>changed_state := False\<rparr>))
    \<and> snd (loop now1 now2 s')
        = [lcd_clear, stop_car] @ snd (loop now1 now2 (s'\<lparr>changed_state := False\<rparr>))
    \<and> count_list (snd (loop now1 now2 s')) stop_car = 1
    \<and> \<not> changed_state (fst (loop now1 now2 s'))
    \<and> direction (fst (loop now1 now2 s')) = direction s'
    \<and> current_direction_start (fst (loop now1 now2 s')) = current_direction_start s')
 \<and> (\<not> changed_state s' \<longrightarrow>
      \<not> changed_state (fst (loop now1 now2 s'))
    \<and> stop_car \<notin> set (snd (loop now1 now2 s')))"
proof -
  have a: "state (step e s) \<noteq> state s \<longrightarrow> changed_state (step e s)"
    using step_sets_flag by blast
  have b: "changed_state s' \<and> state s' = ALARM_RINGING \<longrightarrow>
      loop now1 now2 s'
        = (s'\<lparr>changed_state := False, direction := False,
               current_direction_start := now1\<rparr>, [lcd_clear])"
    by (simp add: loop_def)
  from a b loop_entry_other [of s' now1 now2] loop_no_entry [of s' now1 now2]
  show ?thesis by blast
qed

text \<open>
  Instances: the tick that moves an armed alarm to ringing sets the flag, and the pass
  at 2100 ms takes the ringing entry; a pass in the alarm-setting state with the flag
  set stops the motor and prints the minutes; a pass at boot, flag clear, does neither.
\<close>

theorem changed_state_handoff_witness:
  "state (step Tick (boot\<lparr>state := ALARM_SET\<rparr>)) \<noteq> state (boot\<lparr>state := ALARM_SET\<rparr>)
 \<and> changed_state (step Tick (boot\<lparr>state := ALARM_SET\<rparr>))
 \<and> state (step Tick (boot\<lparr>state := ALARM_SET\<rparr>)) = ALARM_RINGING
 \<and> loop 2100 2101 (step Tick (boot\<lparr>state := ALARM_SET\<rparr>))
     = ((step Tick (boot\<lparr>state := ALARM_SET\<rparr>))
          \<lparr>changed_state := False, direction := False, current_direction_start := 2100\<rparr>,
        [lcd_clear])
 \<and> changed_state (boot\<lparr>state := SETTING_ALARM, changed_state := True\<rparr>)
 \<and> state (boot\<lparr>state := SETTING_ALARM, changed_state := True\<rparr>) \<noteq> ALARM_RINGING
 \<and> snd (loop 2100 2101 (boot\<lparr>state := SETTING_ALARM, changed_state := True\<rparr>))
     = [lcd_clear, stop_car, print_current_alarm_info 0]
 \<and> \<not> changed_state (fst (loop 2100 2101 (boot\<lparr>state := SETTING_ALARM, changed_state := True\<rparr>)))
 \<and> \<not> changed_state boot
 \<and> stop_car \<notin> set (snd (loop 2100 2101 boot))"
proof -
  let ?a = "boot\<lparr>state := ALARM_SET\<rparr>"
  let ?r = "step Tick ?a"
  let ?u = "boot\<lparr>state := SETTING_ALARM, changed_state := True\<rparr>"
  have h1: "state ?r \<noteq> state ?a"
    by (simp add: boot_def TIMER1_COMPA_vect_def Let_def state_defs)
  have h2: "state ?r = ALARM_RINGING"
    by (simp add: boot_def TIMER1_COMPA_vect_def Let_def state_defs)
  have h3: "changed_state ?u \<and> state ?u \<noteq> ALARM_RINGING"
    by (simp add: state_defs)
  have h4: "\<not> changed_state boot"
    by (simp add: boot_def)
  have a: "changed_state ?r"
    using h1 changed_state_handoff [where e = Tick and s = ?a and s' = boot
        and ?now1.0 = 2100 and ?now2.0 = 2101] by blast
  have b: "loop 2100 2101 ?r
     = (?r\<lparr>changed_state := False, direction := False, current_direction_start := 2100\<rparr>,
        [lcd_clear])"
    using a h2 changed_state_handoff [where e = Tick and s = ?a and s' = ?r
        and ?now1.0 = 2100 and ?now2.0 = 2101] by blast
  have c: "snd (loop 2100 2101 ?u)
        = [lcd_clear, stop_car] @ snd (loop 2100 2101 (?u\<lparr>changed_state := False\<rparr>))
      \<and> \<not> changed_state (fst (loop 2100 2101 ?u))"
    using h3 changed_state_handoff [where e = Tick and s = ?a and s' = ?u
        and ?now1.0 = 2100 and ?now2.0 = 2101] by blast
  have c': "snd (loop 2100 2101 (?u\<lparr>changed_state := False\<rparr>)) = [print_current_alarm_info 0]"
    by (simp add: boot_def loop_def Let_def state_defs)
  have d: "stop_car \<notin> set (snd (loop 2100 2101 boot))"
    using h4 changed_state_handoff [where e = Tick and s = ?a and s' = boot
        and ?now1.0 = 2100 and ?now2.0 = 2101] by blast
  from h1 h2 h3 h4 a b c c' d show ?thesis by simp
qed

section \<open>Motion while ringing\<close>

lemma passes_within_window:
  assumes "state s = ALARM_RINGING" "\<not> changed_state s"
    and "\<forall>p \<in> set ps. fst p - current_direction_start s < BUZZING_TIME_MILLIS"
  shows "passes ps s = s \<and> flips ps s = 0"
  using assms
proof (induction ps)
  case Nil
  then show ?case by simp
next
  case (Cons p ps)
  from Cons.prems have "\<not> BUZZING_TIME_MILLIS \<le> fst p - current_direction_start s"
    by (simp add: not_le)
  with Cons.prems have "fst (loop (fst p) (snd p) s) = s"
    by (simp add: loop_def Let_def)
  with Cons show ?case by simp
qed

lemma passes_append: "passes (ps @ qs) s = passes qs (passes ps s)"
  by (induction ps arbitrary: s) simp_all

lemma flips_append: "flips (ps @ qs) s = flips ps s + flips qs (passes ps s)"
  by (induction ps arbitrary: s) simp_all

lemma one_flip_per_window:
  assumes "state s = ALARM_RINGING" "\<not> changed_state s"
    and "\<forall>p \<in> set ps. fst p - current_direction_start s < BUZZING_TIME_MILLIS"
    and "BUZZING_TIME_MILLIS \<le> now1 - current_direction_start s"
  shows "passes ps s = s \<and> flips ps s = 0
      \<and> passes (ps @ [(now1, now2)]) s
          = s\<lparr>current_direction_start := now2, direction := \<not> direction s\<rparr>
      \<and> flips (ps @ [(now1, now2)]) s = 1"
proof -
  from assms(1-3) have w: "passes ps s = s \<and> flips ps s = 0"
    by (rule passes_within_window)
  from assms(1,2,4)
  have "fst (loop now1 now2 s)
          = s\<lparr>current_direction_start := now2, direction := \<not> direction s\<rparr>"
    by (simp add: loop_def Let_def)
  with w show ?thesis by (simp add: passes_append flips_append)
qed

lemma direction_outside_ringing:
  assumes "state s \<noteq> ALARM_RINGING"
  shows "direction (step e s) = direction s"
proof (cases e)
  case Tick
  then show ?thesis by (simp add: TIMER1_COMPA_vect_def Let_def)
next
  case (Blue t)
  then show ?thesis by (simp add: INT0_vect_def Let_def)
next
  case (Red t)
  then show ?thesis by (simp add: INT1_vect_def Let_def)
next
  case (Yellow p t)
  then show ?thesis by (simp add: PCINT2_vect_def Let_def)
next
  case (Pass t1 t2)
  with assms show ?thesis by (simp add: loop_def Let_def split: prod.splits)
qed

text \<open>
  C6, as amended. Take a loop pass in the ringing state that finds the state-changed
  flag clear (the pass that finds it set is the entry pass of C5: it neither flips nor
  actuates). If the clock reading minus the window start has reached 3500 ms, the pass
  flips the direction, sets the window start to the second clock reading and skips
  actuation. Otherwise it sounds the tone and drives forward when the direction is
  true, and silences the buzzer and drives backward when it is false; nothing changes.
  Either way the next pass is again a ringing pass with the flag clear. So over a run
  of such passes that stay inside the window followed by the first pass that finds the
  window over, the direction flips exactly once, on that last pass, and the next
  window starts there. Outside the ringing state no event changes the direction.
\<close>

theorem ringing_oscillation:
  assumes "state s = ALARM_RINGING" and "\<not> changed_state s"
  shows "(BUZZING_TIME_MILLIS \<le> now1 - current_direction_start s \<longrightarrow>
           loop now1 now2 s
             = (s\<lparr>current_direction_start := now2, direction := \<not> direction s\<rparr>,
                [print_during_alarm_ringing DEFAULT_SNOOZE_TIME_MINUTES]))
       \<and> (now1 - current_direction_start s < BUZZING_TIME_MILLIS \<and> direction s \<longrightarrow>
           loop now1 now2 s
             = (s, [print_during_alarm_ringing DEFAULT_SNOOZE_TIME_MINUTES,
                    tone BUZZER_FREQUENCY_HZ, move_forward]))
       \<and> (now1 - current_direction_start s < BUZZING_TIME_MILLIS \<and> \<not> direction s \<longrightarrow>
           loop now1 now2 s
             = (s, [print_during_alarm_ringing DEFAULT_SNOOZE_TIME_MINUTES,
                    noTone, move_backward]))
       \<and> state (fst (loop now1 now2 s)) = ALARM_RINGING
       \<and> \<not> changed_state (fst (loop now1 now2 s))
       \<and> ((\<forall>p \<in> set ps. fst p - current_direction_start s < BUZZING_TIME_MILLIS)
            \<and> BUZZING_TIME_MILLIS \<le> now1 - current_direction_start s \<longrightarrow>
            passes ps s = s \<and> flips ps s = 0
          \<and> passes (ps @ [(now1, now2)]) s
              = s\<lparr>current_direction_start := now2, direction := \<not> direction s\<rparr>
          \<and> flips (ps @ [(now1, now2)]) s = 1)
       \<and> (state s' \<noteq> ALARM_RINGING \<longrightarrow> direction (step e s') = direction s')"
proof -
  have a: "BUZZING_TIME_MILLIS \<le> now1 - current_direction_start s \<longrightarrow>
           loop now1 now2 s
             = (s\<lparr>current_direction_start := now2, direction := \<not> direction s\<rparr>,
                [print_during_alarm_ringing DEFAULT_SNOOZE_TIME_MINUTES])"
    using assms by (simp add: loop_def Let_def)
  have b: "now1 - current_direction_start s < BUZZING_TIME_MILLIS \<and> direction s \<longrightarrow>
           loop now1 now2 s
             = (s, [print_during_alarm_ringing DEFAULT_SNOOZE_TIME_MINUTES,
                    tone BUZZER_FREQUENCY_HZ, move_forward])"
    using assms by (auto simp: loop_def Let_def)
  have c: "now1 - current_direction_start s < BUZZING_TIME_MILLIS \<and> \<not> direction s \<longrightarrow>
           loop now1 now2 s
             = (s, [print_during_alarm_ringing DEFAULT_SNOOZE_TIME_MINUTES,
                    noTone, move_backward])"
    using assms by (auto simp: loop_def Let_def)
  have d: "state (fst (loop now1 now2 s)) = ALARM_RINGING"
    "\<not> changed_state (fst (loop now1 now2 s))"
    using assms by (simp_all add: loop_def Let_def)
  from a b c d one_flip_per_window [OF assms, of ps now1 now2]
    direction_outside_ringing [of s' e]
  show ?thesis by blast
qed

text \<open>
  An instance: ringing, direction false, window started at 10000 ms. The passes at
  10001 and 13499 ms drive backward and change nothing, the pass at 13500 ms flips.
\<close>

theorem ringing_oscillation_witness:
  "state (boot\<lparr>state := ALARM_RINGING, current_direction_start := 10000\<rparr>) = ALARM_RINGING
 \<and> \<not> changed_state (boot\<lparr>state := ALARM_RINGING, current_direction_start := 10000\<rparr>)
 \<and> 10001 - current_direction_start
             (boot\<lparr>state := ALARM_RINGING, current_direction_start := 10000\<rparr>)
     < BUZZING_TIME_MILLIS
 \<and> 13499 - current_direction_start
             (boot\<lparr>state := ALARM_RINGING, current_direction_start := 10000\<rparr>)
     < BUZZING_TIME_MILLIS
 \<and> BUZZING_TIME_MILLIS
     \<le> 13500 - current_direction_start
                 (boot\<lparr>state := ALARM_RINGING, current_direction_start := 10000\<rparr>)
 \<and> loop 10001 10001 (boot\<lparr>state := ALARM_RINGING, current_direction_start := 10000\<rparr>)
     = (boot\<lparr>state := ALARM_RINGING, current_direction_start := 10000\<rparr>,
        [print_during_alarm_ringing 3, noTone, move_backward])
 \<and> passes [(10001, 10001), (13499, 13499), (13500, 13501)]
      (boot\<lparr>state := ALARM_RINGING, current_direction_start := 10000\<rparr>)
     = boot\<lparr>state := ALARM_RINGING, current_direction_start := 13501, direction := True\<rparr>
 \<and> flips [(10001, 10001), (13499, 13499), (13500, 13501)]
      (boot\<lparr>state := ALARM_RINGING, current_direction_start := 10000\<rparr>) = 1"
proof -
  let ?s = "boot\<lparr>state := ALARM_RINGING, current_direction_start := 10000\<rparr>"
  let ?ps = "[(10001, 10001), (13499, 13499)] :: (ulong \<times> ulong) list"
  have h1: "state ?s = ALARM_RINGING" by simp
  have h2: "\<not> changed_state ?s" by (simp add: boot_def)
  have h3: "\<forall>p \<in> set ?ps. fst p - current_direction_start ?s < BUZZING_TIME_MILLIS"
    by (simp add: const_defs)
  have h4: "BUZZING_TIME_MILLIS \<le> 13500 - current_direction_start ?s"
    by (simp add: const_defs)
  have h5: "10001 - current_direction_start ?s < BUZZING_TIME_MILLIS \<and> \<not> direction ?s"
    by (simp add: const_defs boot_def)
  have a: "loop 10001 10001 ?s
      = (?s, [print_during_alarm_ringing DEFAULT_SNOOZE_TIME_MINUTES, noTone, move_backward])"
    using h5 ringing_oscillation [OF h1 h2, where ?now1.0 = 10001 and ?now2.0 = 10001
        and ps = "[]" and s' = boot and e = Tick]
    by blast
  have b: "passes (?ps @ [(13500, 13501)]) ?s
        = ?s\<lparr>current_direction_start := 13501, direction := \<not> direction ?s\<rparr>
      \<and> flips (?ps @ [(13500, 13501)]) ?s = 1"
    using h3 h4 ringing_oscillation [OF h1 h2, where ?now1.0 = 13500 and ?now2.0 = 13501
        and ps = ?ps and s' = boot and e = Tick]
    by blast
  have c: "?s\<lparr>current_direction_start := 13501, direction := \<not> direction ?s\<rparr>
      = boot\<lparr>state := ALARM_RINGING, current_direction_start := 13501, direction := True\<rparr>"
    by (simp add: boot_def)
  have l: "?ps @ [(13500, 13501)] = [(10001, 10001), (13499, 13499), (13500, 13501)]"
    by simp
  have a': "loop 10001 10001 ?s = (?s, [print_during_alarm_ringing 3, noTone, move_backward])"
    using a by (simp only: DEFAULT_SNOOZE_TIME_MINUTES_def)
  have h3': "10001 - current_direction_start ?s < BUZZING_TIME_MILLIS"
    "13499 - current_direction_start ?s < BUZZING_TIME_MILLIS"
    by (simp_all add: const_defs)
  from h1 h2 h3' h4 a' b [unfolded l c] show ?thesis by blast
qed

lemma run_append: "run (es @ fs) s = run fs (run es s)"
  by (induction es arbitrary: s) simp_all

text \<open>
  A run from boot to the ringing state: five ticks, then increase, decrease and confirm
  arm the alarm with 0 minutes, a pass consumes the flag, and the next tick rings.
\<close>

lemma ring_after_boot:
  "run [Tick, Tick, Tick, Tick, Tick, Yellow 0 10100, Red 10400, Blue 10700,
        Pass 10800 10800, Tick] boot
   = \<lparr> last_yellow_button_push = 10100, last_red_button_push = 10400,
       last_blue_button_push = 10700, seconds_passed = 12,
       seconds_for_alarm_start = 10, number_of_minutes_selected = 0,
       current_direction_start = 0, direction = False,
       state = ALARM_RINGING, changed_state = True,
       force_lcd_clear = False \<rparr>"
proof -
  have a: "run [Tick, Tick, Tick, Tick, Tick] boot = boot\<lparr>seconds_passed := 10\<rparr>"
    by (simp add: boot_def TIMER1_COMPA_vect_def Let_def state_defs)
  have b: "run [Yellow 0 10100, Red 10400, Blue 10700] (boot\<lparr>seconds_passed := 10\<rparr>)
      = \<lparr> last_yellow_button_push = 10100, last_red_button_push = 10400,
       last_blue_button_push = 10700, seconds_passed = 10,
       seconds_for_alarm_start = 10, number_of_minutes_selected = 0,
       current_direction_start = 0, direction = False,
       state = ALARM_SET, changed_state = True,
       force_lcd_clear = False \<rparr>"
    by (simp add: boot_def PCINT2_vect_def INT0_vect_def INT1_vect_def Let_def
          state_defs const_defs)
  have c: "run [Pass 10800 10800, Tick]
       \<lparr> last_yellow_button_push = 10100, last_red_button_push = 10400,
       last_blue_button_push = 10700, seconds_passed = 10,
       seconds_for_alarm_start = 10, number_of_minutes_selected = 0,
       current_direction_start = 0, direction = False,
       state = ALARM_SET, changed_state = True,
       force_lcd_clear = False \<rparr>
     = \<lparr> last_yellow_button_push = 10100, last_red_button_push = 10400,
       last_blue_button_push = 10700, seconds_passed = 12,
       seconds_for_alarm_start = 10, number_of_minutes_selected = 0,
       current_direction_start = 0, direction = False,
       state = ALARM_RINGING, changed_state = True,
       force_lcd_clear = False \<rparr>"
    by (simp add: loop_def TIMER1_COMPA_vect_def Let_def state_defs)
  have "run ([Tick, Tick, Tick, Tick, Tick] @ [Yellow 0 10100, Red 10400, Blue 10700]
            @ [Pass 10800 10800, Tick]) boot
   = \<lparr> last_yellow_button_push = 10100, last_red_button_push = 10400,
       last_blue_button_push = 10700, seconds_passed = 12,
       seconds_for_alarm_start = 10, number_of_minutes_selected = 0,
       current_direction_start = 0, direction = False,
       state = ALARM_RINGING, changed_state = True,
       force_lcd_clear = False \<rparr>"
    unfolding run_append a b c ..
  then show ?thesis by simp
qed

text \<open>
  The claim as first stated (on any ringing pass the loop either flips or actuates)
  fails on the entry pass, here at the end of the run from boot above. The
  pass at 12001 ms finds the ringing state, the flag set, the direction false and the
  window start still 0, so the clock minus the window start has reached 3500 ms; the
  pass leaves the direction false (no flip) and only clears the display. The next pass,
  inside the new window, is the first that actuates.
\<close>

theorem entry_pass_counterexample:
  "state (run [Tick, Tick, Tick, Tick, Tick, Yellow 0 10100, Red 10400, Blue 10700,
              Pass 10800 10800, Tick] boot) = ALARM_RINGING
 \<and> \<not> direction (run [Tick, Tick, Tick, Tick, Tick, Yellow 0 10100, Red 10400, Blue 10700,
                     Pass 10800 10800, Tick] boot)
 \<and> BUZZING_TIME_MILLIS
     \<le> 12001 - current_direction_start
                 (run [Tick, Tick, Tick, Tick, Tick, Yellow 0 10100, Red 10400, Blue 10700,
                       Pass 10800 10800, Tick] boot)
 \<and> \<not> direction (fst (loop 12001 12001
        (run [Tick, Tick, Tick, Tick, Tick, Yellow 0 10100, Red 10400, Blue 10700,
              Pass 10800 10800, Tick] boot)))
 \<and> snd (loop 12001 12001
        (run [Tick, Tick, Tick, Tick, Tick, Yellow 0 10100, Red 10400, Blue 10700,
              Pass 10800 10800, Tick] boot)) = [lcd_clear]"
  unfolding ring_after_boot
  by (simp add: loop_def Let_def state_defs const_defs)

section \<open>The debounce gate\<close>

lemma button_of_edge: "button_of (edge b p t) = Some b"
  by (cases b) simp_all

lemma last_push_other:
  assumes "button_of e \<noteq> Some b"
  shows "last_push b (step e s) = last_push b s"
proof (cases e)
  case Tick
  then show ?thesis by (cases b) (simp_all add: TIMER1_COMPA_vect_def Let_def)
next
  case (Blue t)
  with assms show ?thesis by (cases b) (simp_all add: INT0_vect_def Let_def)
next
  case (Red t)
  with assms show ?thesis by (cases b) (simp_all add: INT1_vect_def Let_def)
next
  case (Yellow p t)
  with assms show ?thesis by (cases b) (simp_all add: PCINT2_vect_def Let_def)
next
  case (Pass t1 t2)
  then show ?thesis by (cases b) (simp_all add: loop_def Let_def split: prod.splits)
qed

lemma run_last_push:
  "\<forall>e \<in> set es. button_of e \<noteq> Some b \<Longrightarrow> last_push b (run es s) = last_push b s"
proof (induction es arbitrary: s)
  case Nil
  then show ?case by simp
next
  case (Cons e es)
  then show ?case by (simp add: last_push_other)
qed

lemma edge_accepted:
  "accepted b p t s \<Longrightarrow> last_push b (step (edge b p t) s) = t"
  by (cases b) (simp_all add: accepted_def INT0_vect_def INT1_vect_def PCINT2_vect_def Let_def)

lemma edge_rejected:
  "\<not> accepted b p t s \<Longrightarrow> step (edge b p t) s = s"
  by (cases b) (auto simp: accepted_def INT0_vect_def INT1_vect_def PCINT2_vect_def Let_def)

lemma accepted_changes:
  assumes "accepted b p t s"
  shows "step (edge b p t) s \<noteq> s"
proof
  assume eq: "step (edge b p t) s = s"
  from assms have "last_push b (step (edge b p t) s) = t" by (rule edge_accepted)
  with eq have "last_push b s = t" by simp
  with assms have "MINIMUM_TIME_BETWEEN_BUTTON_PRESSES_MILLIS \<le> (0 :: ulong)"
    by (simp add: accepted_def)
  then show False by (simp add: const_defs)
qed

lemma millis_difference:
  assumes "T0 \<le> T1" "T1 - T0 < 2 ^ 32"
  shows "(MINIMUM_TIME_BETWEEN_BUTTON_PRESSES_MILLIS \<le> (of_nat T1 :: ulong) - of_nat T0)
           = (200 \<le> T1 - T0)"
proof -
  from assms(1) have "(of_nat T1 :: ulong) - of_nat T0 = of_nat (T1 - T0)"
    by simp
  moreover from assms(2) have "unat (of_nat (T1 - T0) :: ulong) = T1 - T0"
    by (simp add: unat_of_nat)
  ultimately show ?thesis
    by (simp add: word_le_nat_alt const_defs)
qed

lemma second_edge_rejected:
  assumes acc: "accepted b p t s"
    and close: "t2 - t < MINIMUM_TIME_BETWEEN_BUTTON_PRESSES_MILLIS"
    and others: "\<forall>e \<in> set es. button_of e \<noteq> Some b"
  shows "\<not> accepted b p2 t2 (run es (step (edge b p t) s))"
proof -
  from acc have "last_push b (step (edge b p t) s) = t" by (rule edge_accepted)
  with others have "last_push b (run es (step (edge b p t) s)) = t"
    by (simp add: run_last_push)
  with close show ?thesis by (simp add: accepted_def not_le)
qed

text \<open>
  C4, as amended. An edge on a button at clock reading \<open>t\<close> is accepted exactly when
  \<open>t\<close> minus the button's own timestamp, as a 32-bit unsigned difference, is at least
  200 ms and, for the increase button only, the line reads low when the interrupt is
  handled (the pin-change interrupt also fires on the other edge, which the handler
  drops). An accepted edge sets the button's timestamp to \<open>t\<close>; a rejected edge changes
  nothing at all, and an accepted one always changes something. No other event touches
  the timestamp. So after an accepted edge, a second edge on the same button less than
  200 ms later is rejected and changes nothing, whatever happened on the other inputs
  in between: of two edges closer than the window at most one is accepted, and exactly
  one when the first is. While less than \<open>2 ^ 32\<close> ms have really passed since the last
  accepted edge, the 32-bit difference is the time that has really passed.
\<close>

theorem debounce_gate:
  "accepted b p t s = (line_low b p \<and> MINIMUM_TIME_BETWEEN_BUTTON_PRESSES_MILLIS \<le> t - last_push b s)
 \<and> (accepted b p t s \<longrightarrow>
      last_push b (step (edge b p t) s) = t \<and> step (edge b p t) s \<noteq> s)
 \<and> (\<not> accepted b p t s \<longrightarrow> step (edge b p t) s = s)
 \<and> (button_of e' \<noteq> Some b \<longrightarrow> last_push b (step e' s) = last_push b s)
 \<and> (accepted b p t s \<and> t2 - t < MINIMUM_TIME_BETWEEN_BUTTON_PRESSES_MILLIS
      \<and> (\<forall>e \<in> set es. button_of e \<noteq> Some b) \<longrightarrow>
      \<not> accepted b p2 t2 (run es (step (edge b p t) s))
    \<and> step (edge b p2 t2) (run es (step (edge b p t) s)) = run es (step (edge b p t) s))
 \<and> (T0 \<le> T1 \<and> T1 - T0 < 2 ^ 32 \<and> last_push b s = of_nat T0 \<longrightarrow>
      accepted b p (of_nat T1) s = (line_low b p \<and> 200 \<le> T1 - T0))"
proof -
  have a: "accepted b p t s
      = (line_low b p \<and> MINIMUM_TIME_BETWEEN_BUTTON_PRESSES_MILLIS \<le> t - last_push b s)"
    by (simp add: accepted_def)
  have f: "accepted b p (of_nat T1) s = (line_low b p \<and> 200 \<le> T1 - T0)"
    if "T0 \<le> T1 \<and> T1 - T0 < 2 ^ 32 \<and> last_push b s = of_nat T0"
    using that millis_difference [of T0 T1] by (simp add: accepted_def)
  have e: "\<not> accepted b p2 t2 (run es (step (edge b p t) s))
    \<and> step (edge b p2 t2) (run es (step (edge b p t) s)) = run es (step (edge b p t) s)"
    if "accepted b p t s \<and> t2 - t < MINIMUM_TIME_BETWEEN_BUTTON_PRESSES_MILLIS
      \<and> (\<forall>e \<in> set es. button_of e \<noteq> Some b)"
  proof -
    from that have "\<not> accepted b p2 t2 (run es (step (edge b p t) s))"
      using second_edge_rejected by blast
    then show ?thesis by (simp add: edge_rejected)
  qed
  from a e f edge_accepted [of b p t s] accepted_changes [of b p t s]
    edge_rejected [of b p t s] last_push_other [of e' b s]
  show ?thesis by blast
qed

text \<open>
  Instances: at boot the confirm edge at 1000 ms is accepted, and the edge at 1100 ms,
  after a tick and a decrease edge, is rejected; an increase edge that finds the line
  high is rejected.
\<close>

theorem debounce_gate_witness:
  "accepted blue 0 1000 boot
 \<and> last_push blue (step (edge blue 0 1000) boot) = 1000
 \<and> 1100 - 1000 < MINIMUM_TIME_BETWEEN_BUTTON_PRESSES_MILLIS
 \<and> button_of (Red 1050) \<noteq> Some blue
 \<and> step (edge blue 0 1100) (run [Tick, Red 1050] (step (edge blue 0 1000) boot))
     = run [Tick, Red 1050] (step (edge blue 0 1000) boot)
 \<and> button_of Tick \<noteq> Some blue
 \<and> last_push blue (step Tick boot) = last_push blue boot
 \<and> (0 :: nat) \<le> 1000 \<and> (1000 :: nat) - 0 < 2 ^ 32 \<and> last_push blue boot = of_nat 0
 \<and> \<not> accepted yellow 16 1000 boot
 \<and> step (edge yellow 16 1000) boot = boot"
proof -
  have h1: "accepted blue 0 1000 boot"
    by (simp add: accepted_def boot_def const_defs)
  have h2: "1100 - 1000 < MINIMUM_TIME_BETWEEN_BUTTON_PRESSES_MILLIS"
    by (simp add: const_defs)
  have h3: "\<forall>e \<in> set [Tick, Red 1050]. button_of e \<noteq> Some blue"
    by simp
  have h4: "button_of Tick \<noteq> Some blue"
    by simp
  have h5: "(0 :: nat) \<le> 1000 \<and> (1000 :: nat) - 0 < 2 ^ 32 \<and> last_push blue boot = of_nat 0"
    by (simp add: boot_def)
  have h6: "\<not> accepted yellow 16 1000 boot"
    by (simp add: accepted_def const_defs)
  note g = debounce_gate [where b = blue and p = 0 and t = 1000 and s = boot
      and e' = Tick and ?t2.0 = 1100 and es = "[Tick, Red 1050]" and ?p2.0 = 0
      and ?T0.0 = 0 and ?T1.0 = 1000]
  have a: "last_push blue (step (edge blue 0 1000) boot) = 1000"
    using h1 g by blast
  have b: "step (edge blue 0 1100) (run [Tick, Red 1050] (step (edge blue 0 1000) boot))
     = run [Tick, Red 1050] (step (edge blue 0 1000) boot)"
    using h1 h2 h3 g by blast
  have c: "last_push blue (step Tick boot) = last_push blue boot"
    using h4 g by blast
  have d: "step (edge yellow 16 1000) boot = boot"
    using h6 debounce_gate [where b = yellow and p = 16 and t = 1000 and s = boot
      and e' = Tick and ?t2.0 = 1100 and es = "[]" and ?p2.0 = 0
      and ?T0.0 = 0 and ?T1.0 = 1000]
    by blast
  have h3': "button_of (Red 1050) \<noteq> Some blue"
    by simp
  from h1 h2 h3' h4 h5 h6 a b c d show ?thesis by blast
qed

text \<open>
  The claim as first stated fails in two places. The increase button is pressed at
  1000 ms (accepted) and released at 1500 ms: the release raises the same interrupt,
  500 ms after the last accepted edge, and is not accepted, because the line reads
  high. And after the confirm edge accepted at 1000 ms, the two edges at 1050 and
  1100 ms, 50 ms apart, are both rejected: two edges closer than the window with no
  accepted event among them.
\<close>

theorem debounce_counterexample:
  "last_yellow_button_push (PCINT2_vect 0 1000 boot) = 1000
 \<and> MINIMUM_TIME_BETWEEN_BUTTON_PRESSES_MILLIS
     \<le> 1500 - last_yellow_button_push (PCINT2_vect 0 1000 boot)
 \<and> PCINT2_vect 16 1500 (PCINT2_vect 0 1000 boot) = PCINT2_vect 0 1000 boot
 \<and> last_blue_button_push (INT0_vect 1000 boot) = 1000
 \<and> (1100 :: ulong) - 1050 < MINIMUM_TIME_BETWEEN_BUTTON_PRESSES_MILLIS
 \<and> INT0_vect 1050 (INT0_vect 1000 boot) = INT0_vect 1000 boot
 \<and> INT0_vect 1100 (INT0_vect 1050 (INT0_vect 1000 boot)) = INT0_vect 1000 boot"
  by (simp add: boot_def PCINT2_vect_def INT0_vect_def Let_def state_defs const_defs)

end
